theory Spec2Isabelle
  imports Complex_Main
begin

section \<open>The Heun discrete scheduler of ppdiffusers\<close>

text \<open>
  A shallow embedding of
  \<^verbatim>\<open>ppdiffusers/ppdiffusers/schedulers/scheduling_heun_discrete.py\<close>.

  Conventions of the model.
  \<^item> Python and numpy floats (float64, float32) are the real numbers: every arithmetic
    operation is exact and the casts between float64 and float32 are the identity.
    Rounding, overflow, infinities and NaN are outside the model; \<open>x ** 0.5\<close> is
    \<open>sqrt x\<close>, \<open>math.cos\<close>, \<open>math.pi\<close> and \<open>np.log\<close> are \<open>cos\<close>, \<open>pi\<close> and \<open>ln\<close>.
    A tensor division by a zero scalar (which gives an infinity or a NaN in the code and
    raises nothing) is HOL's total division.
  \<^item> A one-dimensional array or tensor of numbers is a \<open>real list\<close>.
  \<^item> A sample tensor of a fixed shape is an element of a real vector space \<open>'a\<close>; the
    product of a tensor with a number (a zero-dimensional tensor, broadcast over the
    sample) is scalar multiplication.
  \<^item> The scheduler object is a record; a method takes the record and returns the
    updated record together with its result.  An attribute that holds \<open>None\<close>, or that
    has not been assigned yet, is the option value \<open>None\<close>.
  \<^item> An exception is the \<open>Inl\<close> of a sum; \<open>IndexError\<close> is Python's \<open>LookupError\<close>
    subclass.
\<close>

subsection \<open>Exceptions and configuration\<close>

datatype error = NotImplementedError | ValueError | IndexError | TypeError | ZeroDivisionError

text \<open>The arguments of \<open>__init__\<close>, which \<open>register_to_config\<close> stores as \<open>self.config\<close>.\<close>

record config =
  num_train_timesteps :: int
  beta_start :: real
  beta_end :: real
  beta_schedule :: string
  trained_betas :: "real list option"
  prediction_type :: string
  use_karras_sigmas :: bool

text \<open>The attributes of a \<open>HeunDiscreteScheduler\<close> instance.\<close>

record 'a scheduler =
  config :: config
  betas :: "real list"
  alphas :: "real list"
  alphas_cumprod :: "real list"
  num_inference_steps :: int
  sigmas :: "real list"
  init_noise_sigma :: real
  timesteps :: "real list"
  prev_derivative :: "'a option"
  dt :: "real option"
  sample :: "'a option"

subsection \<open>Python, numpy and paddle primitives\<close>

text \<open>\<open>xs[i]\<close>: a negative index counts from the end, an index out of range raises.\<close>

definition getitem :: "'a list \<Rightarrow> int \<Rightarrow> error + 'a" where
  "getitem xs i =
     (if 0 \<le> i \<and> i < int (length xs) then Inr (xs ! nat i)
      else if i < 0 \<and> - int (length xs) \<le> i then Inr (xs ! nat (int (length xs) + i))
      else Inl IndexError)"

text \<open>Running a list of computations in order, stopping at the first exception.\<close>

fun sequence_err :: "('e + 'a) list \<Rightarrow> 'e + 'a list" where
  "sequence_err [] = Inr []"
| "sequence_err (r # rs) =
     (case r of
        Inl e \<Rightarrow> Inl e
      | Inr x \<Rightarrow> (case sequence_err rs of Inl e \<Rightarrow> Inl e | Inr xs \<Rightarrow> Inr (x # xs)))"

text \<open>
  \<open>np.linspace(start, stop, num)\<close>: \<open>num\<close> evenly spaced points from \<open>start\<close> to
  \<open>stop\<close>, both included; a single point is \<open>start\<close>; a negative \<open>num\<close> raises
  ValueError.
\<close>

definition np_linspace :: "real \<Rightarrow> real \<Rightarrow> int \<Rightarrow> error + real list" where
  "np_linspace start stop num =
     (if num < 0 then Inl ValueError
      else Inr (map (\<lambda>i. start + real i * ((stop - start) / real (nat num - 1)))
                  [0..<nat num]))"

text \<open>
  \<open>paddle.linspace(start, stop, num)\<close>: the same points; the paddle operator rejects
  \<open>num \<le> 0\<close>.
\<close>

definition paddle_linspace :: "real \<Rightarrow> real \<Rightarrow> int \<Rightarrow> error + real list" where
  "paddle_linspace start stop num =
     (if num \<le> 0 then Inl ValueError else np_linspace start stop num)"

text \<open>
  \<open>np.interp(x, np.arange(0, len(fp)), fp)\<close> at one point: piecewise linear between
  the integer positions, constant outside them.
\<close>

definition interp1 :: "real list \<Rightarrow> real \<Rightarrow> real" where
  "interp1 fp x =
     (if x \<le> 0 then fp ! 0
      else if real (length fp - 1) \<le> x then fp ! (length fp - 1)
      else (let j = nat \<lfloor>x\<rfloor>
            in (fp ! (j + 1) - fp ! j) / (real (j + 1) - real j) * (x - real j) + fp ! j))"

definition np_interp :: "real list \<Rightarrow> real list \<Rightarrow> error + real list" where
  "np_interp xs fp = (if fp = [] then Inl ValueError else Inr (map (interp1 fp) xs))"

text \<open>\<open>paddle.cumprod(xs, 0)\<close> and \<open>np.cumsum\<close>: the running product and sum.\<close>

fun cumprod_from :: "real \<Rightarrow> real list \<Rightarrow> real list" where
  "cumprod_from acc [] = []"
| "cumprod_from acc (x # xs) = (acc * x) # cumprod_from (acc * x) xs"

definition cumprod :: "real list \<Rightarrow> real list" where
  "cumprod xs = cumprod_from 1 xs"

fun cumsum_from :: "int \<Rightarrow> int list \<Rightarrow> int list" where
  "cumsum_from acc [] = []"
| "cumsum_from acc (x # xs) = (acc + x) # cumsum_from (acc + x) xs"

definition cumsum :: "int list \<Rightarrow> int list" where
  "cumsum xs = cumsum_from 0 xs"

text \<open>\<open>argmax\<close>: the first position of the maximum; numpy raises on an empty array.\<close>

definition argmax :: "int list \<Rightarrow> error + nat" where
  "argmax xs =
     (if xs = [] then Inl ValueError
      else Inr (hd (filter (\<lambda>i. xs ! i = Max (set xs)) [0..<length xs])))"

text \<open>\<open>xs.repeat_interleave(2)\<close>: every entry twice, in place.\<close>

definition repeat_interleave2 :: "'a list \<Rightarrow> 'a list" where
  "repeat_interleave2 xs = concat (map (\<lambda>x. [x, x]) xs)"


subsection \<open>The beta schedule\<close>

text \<open>\<open>alpha_bar\<close>, local to \<open>betas_for_alpha_bar\<close>.\<close>

definition alpha_bar :: "real \<Rightarrow> real" where
  "alpha_bar time_step = (cos ((time_step + 0.008) / 1.008 * pi / 2))\<^sup>2"

text \<open>One turn of the loop of \<open>betas_for_alpha_bar\<close>; Python's float division raises on zero.\<close>

definition beta_for_index :: "int \<Rightarrow> real \<Rightarrow> nat \<Rightarrow> error + real" where
  "beta_for_index num_diffusion_timesteps max_beta i =
     (let t1 = real i / real_of_int num_diffusion_timesteps;
          t2 = (real i + 1) / real_of_int num_diffusion_timesteps
      in if alpha_bar t1 = 0 then Inl ZeroDivisionError
         else Inr (min (1 - alpha_bar t2 / alpha_bar t1) max_beta))"

definition betas_for_alpha_bar :: "int \<Rightarrow> real \<Rightarrow> error + real list" where
  "betas_for_alpha_bar num_diffusion_timesteps max_beta =
     sequence_err (map (beta_for_index num_diffusion_timesteps max_beta)
                     [0..<nat num_diffusion_timesteps])"

text \<open>The first statement of \<open>__init__\<close>: the choice of \<open>self.betas\<close>.\<close>

definition init_betas :: "config \<Rightarrow> error + real list" where
  "init_betas c =
     (case trained_betas c of
        Some bs \<Rightarrow> Inr bs
      | None \<Rightarrow>
          if beta_schedule c = ''linear'' then
            paddle_linspace (beta_start c) (beta_end c) (num_train_timesteps c)
          else if beta_schedule c = ''scaled_linear'' then
            (case paddle_linspace (sqrt (beta_start c)) (sqrt (beta_end c))
                    (num_train_timesteps c) of
               Inl e \<Rightarrow> Inl e
             | Inr bs \<Rightarrow> Inr (map (\<lambda>b. b\<^sup>2) bs))
          else if beta_schedule c = ''squaredcos_cap_v2'' then
            betas_for_alpha_bar (num_train_timesteps c) 0.999
          else Inl NotImplementedError)"

subsection \<open>The inference schedule\<close>

text \<open>\<open>((1 - self.alphas_cumprod) / self.alphas_cumprod) ** 0.5\<close>, the training sigmas.\<close>

definition train_sigmas :: "real list \<Rightarrow> real list" where
  "train_sigmas ac = map (\<lambda>a. sqrt ((1 - a) / a)) ac"

definition convert_to_karras :: "real list \<Rightarrow> int \<Rightarrow> error + real list" where
  "convert_to_karras in_sigmas n =
     (case getitem in_sigmas (- 1) of
        Inl e \<Rightarrow> Inl e
      | Inr sigma_min \<Rightarrow>
     (case getitem in_sigmas 0 of
        Inl e \<Rightarrow> Inl e
      | Inr sigma_max \<Rightarrow>
     (case np_linspace 0 1 n of
        Inl e \<Rightarrow> Inl e
      | Inr ramp \<Rightarrow>
          (let rho = 7;
               min_inv_rho = sigma_min powr (1 / rho);
               max_inv_rho = sigma_max powr (1 / rho)
           in Inr (map (\<lambda>r. (max_inv_rho + r * (min_inv_rho - max_inv_rho)) powr rho)
                     ramp)))))"

definition sigma_to_t :: "real \<Rightarrow> real list \<Rightarrow> error + real" where
  "sigma_to_t sigma log_sigmas =
     (let log_sigma = ln sigma;
          dists = map (\<lambda>l. log_sigma - l) log_sigmas
      in case argmax (cumsum (map (\<lambda>d. if d \<ge> 0 then 1 else 0) dists)) of
           Inl e \<Rightarrow> Inl e
         | Inr am \<Rightarrow>
             (let low_idx = min (int am) (int (length log_sigmas) - 2);
                  high_idx = low_idx + 1
              in case getitem log_sigmas low_idx of
                   Inl e \<Rightarrow> Inl e
                 | Inr low \<Rightarrow>
                (case getitem log_sigmas high_idx of
                   Inl e \<Rightarrow> Inl e
                 | Inr high \<Rightarrow>
                     (let w = (low - log_sigma) / (low - high);
                          w = min (max w 0) 1
                      in Inr ((1 - w) * real_of_int low_idx + w * real_of_int high_idx)))))"

text \<open>
  Lines 168 to 185 of \<open>set_timesteps\<close>: the timesteps and sigmas before the terminal
  sigma is appended and the entries are duplicated.  \<open>x or y\<close> takes \<open>y\<close> when \<open>x\<close> is
  \<open>None\<close> or \<open>0\<close>.
\<close>

definition schedule_arrays ::
  "'a scheduler \<Rightarrow> int \<Rightarrow> int option \<Rightarrow> error + (real list \<times> real list)" where
  "schedule_arrays self n ntt =
     (let ntt' = (case ntt of
                    None \<Rightarrow> num_train_timesteps (config self)
                  | Some k \<Rightarrow> if k = 0 then num_train_timesteps (config self) else k)
      in case np_linspace 0 (real_of_int (ntt' - 1)) n of
           Inl e \<Rightarrow> Inl e
         | Inr ls \<Rightarrow>
             (let ts = rev ls;
                  sg = train_sigmas (alphas_cumprod self);
                  log_sigmas = map ln sg
              in case np_interp ts sg of
                   Inl e \<Rightarrow> Inl e
                 | Inr sgs \<Rightarrow>
                     if use_karras_sigmas (config self) then
                       (case convert_to_karras sgs n of
                          Inl e \<Rightarrow> Inl e
                        | Inr ks \<Rightarrow>
                            (case sequence_err (map (\<lambda>s. sigma_to_t s log_sigmas) ks) of
                               Inl e \<Rightarrow> Inl e
                             | Inr kts \<Rightarrow> Inr (kts, ks)))
                     else Inr (ts, sgs)))"

definition set_timesteps :: "'a scheduler \<Rightarrow> int \<Rightarrow> int option \<Rightarrow> error + 'a scheduler" where
  "set_timesteps self n ntt =
     (case schedule_arrays self n ntt of
        Inl e \<Rightarrow> Inl e
      | Inr (ts, sgs) \<Rightarrow>
          (let sgs0 = sgs @ [0];
               sgs' = take 1 sgs0 @ repeat_interleave2 (butlast (drop 1 sgs0))
                        @ drop (length sgs0 - 1) sgs0;
               ts' = take 1 ts @ repeat_interleave2 (drop 1 ts)
           in Inr (self\<lparr>num_inference_steps := n,
                        sigmas := sgs',
                        init_noise_sigma := Max (set sgs'),
                        timesteps := ts',
                        prev_derivative := None,
                        dt := None\<rparr>)))"

subsection \<open>Construction\<close>

text \<open>
  \<open>__init__\<close>.  Before its call of \<open>set_timesteps\<close> the attributes that call assigns
  do not exist yet; the record holds placeholders for them, all overwritten.
  \<open>self.sample\<close> is not assigned before the first \<open>step\<close>.  The flag
  \<open>use_karras_sigmas\<close> is read by \<open>set_timesteps\<close> as an attribute of the instance;
  the attribute and the registered configuration hold the same value.
\<close>

definition init :: "config \<Rightarrow> error + 'a scheduler" where
  "init c =
     (case init_betas c of
        Inl e \<Rightarrow> Inl e
      | Inr bs \<Rightarrow>
          (let al = map (\<lambda>b. 1 - b) bs;
               ac = cumprod al
           in set_timesteps
                \<lparr>config = c, betas = bs, alphas = al, alphas_cumprod = ac,
                 num_inference_steps = 0, sigmas = [], init_noise_sigma = 0,
                 timesteps = [], prev_derivative = None, dt = None, sample = None\<rparr>
                (num_train_timesteps c) (Some (num_train_timesteps c))))"

subsection \<open>Index lookup, input scaling, the step and noise injection\<close>

definition state_in_first_order :: "'a scheduler \<Rightarrow> bool" where
  "state_in_first_order self = (dt self = None)"

text \<open>\<open>(schedule_timesteps == timestep).nonzero()\<close>: the matching positions, ascending.\<close>

definition nonzero_eq :: "real list \<Rightarrow> real \<Rightarrow> nat list" where
  "nonzero_eq schedule_timesteps timestep =
     filter (\<lambda>i. schedule_timesteps ! i = timestep) [0..<length schedule_timesteps]"

definition index_for_timestep :: "'a scheduler \<Rightarrow> real \<Rightarrow> real list option \<Rightarrow> error + nat" where
  "index_for_timestep self timestep schedule_timesteps =
     (let indices = nonzero_eq (case schedule_timesteps of
                                  None \<Rightarrow> timesteps self
                                | Some s \<Rightarrow> s) timestep;
          pos = (if state_in_first_order self then - 1 else 0)
      in getitem indices pos)"


text \<open>Step 1 of \<open>step\<close>: the predicted original sample, by prediction type.\<close>

definition pred_original_sample :: "string \<Rightarrow> real \<Rightarrow> 'a::real_vector \<Rightarrow> 'a \<Rightarrow> error + 'a" where
  "pred_original_sample ptype sigma_input model_output sample_in =
     (if ptype = ''epsilon'' then Inr (sample_in - sigma_input *\<^sub>R model_output)
      else if ptype = ''v_prediction'' then
        Inr ((- sigma_input / sqrt (sigma_input\<^sup>2 + 1)) *\<^sub>R model_output
             + sample_in /\<^sub>R (sigma_input\<^sup>2 + 1))
      else if ptype = ''sample'' then Inl NotImplementedError
      else Inl ValueError)"

text \<open>
  \<open>step\<close> returns the previous sample and the updated scheduler.  In the second-order
  branch a stored derivative or sample that is \<open>None\<close> makes the arithmetic raise.
\<close>

definition step ::
  "'a::real_vector scheduler \<Rightarrow> 'a \<Rightarrow> real \<Rightarrow> 'a \<Rightarrow> error + ('a \<times> 'a scheduler)" where
  "step self model_output timestep sample_in =
     (case index_for_timestep self timestep None of
        Inl e \<Rightarrow> Inl e
      | Inr step_index \<Rightarrow>
     (case (if state_in_first_order self then getitem (sigmas self) (int step_index)
            else getitem (sigmas self) (int step_index - 1)) of
        Inl e \<Rightarrow> Inl e
      | Inr sigma \<Rightarrow>
     (case (if state_in_first_order self then getitem (sigmas self) (int step_index + 1)
            else getitem (sigmas self) (int step_index)) of
        Inl e \<Rightarrow> Inl e
      | Inr sigma_next \<Rightarrow>
          (let gamma = 0;
               sigma_hat = sigma * (gamma + 1);
               sigma_input = (if state_in_first_order self then sigma_hat else sigma_next)
           in case pred_original_sample (prediction_type (config self)) sigma_input
                     model_output sample_in of
                Inl e \<Rightarrow> Inl e
              | Inr pred \<Rightarrow>
                  if state_in_first_order self then
                    (let derivative = (sample_in - pred) /\<^sub>R sigma_hat;
                         dt' = sigma_next - sigma_hat
                     in Inr (sample_in + dt' *\<^sub>R derivative,
                             self\<lparr>prev_derivative := Some derivative,
                                  dt := Some dt',
                                  sample := Some sample_in\<rparr>))
                  else
                    (case (prev_derivative self, dt self, sample self) of
                       (Some pd, Some d, Some s) \<Rightarrow>
                         (let derivative = (sample_in - pred) /\<^sub>R sigma_next;
                              derivative = (pd + derivative) /\<^sub>R 2
                          in Inr (s + d *\<^sub>R derivative,
                                  self\<lparr>prev_derivative := None,
                                       dt := None,
                                       sample := None\<rparr>))
                     | _ \<Rightarrow> Inl TypeError)))))"


subsection \<open>Sequences of calls\<close>

text \<open>A run of \<open>step\<close> calls, each given (model_output, timestep, sample).\<close>

fun run_steps :: "'a::real_vector scheduler \<Rightarrow> ('a \<times> real \<times> 'a) list \<Rightarrow> error + 'a scheduler" where
  "run_steps self [] = Inr self"
| "run_steps self ((model_output, timestep, sample_in) # calls) =
     (case step self model_output timestep sample_in of
        Inl e \<Rightarrow> Inl e
      | Inr (prev_sample, self') \<Rightarrow> run_steps self' calls)"

text \<open>The scheduler states a program can reach: construction, then any successful calls.\<close>

inductive reachable :: "'a::real_vector scheduler \<Rightarrow> bool" where
  reach_init: "init c = Inr self \<Longrightarrow> reachable self"
| reach_set_timesteps:
    "reachable self \<Longrightarrow> set_timesteps self n ntt = Inr self' \<Longrightarrow> reachable self'"
| reach_step:
    "reachable self \<Longrightarrow> step self model_output timestep sample_in = Inr (prev_sample, self')
       \<Longrightarrow> reachable self'"

subsection \<open>A small scheduler\<close>

text \<open>
  Explicit betas \<open>1/2, 3/5, 1/2\<close> give the cumulative products \<open>1/2, 1/5, 1/10\<close> and
  the training sigmas \<open>1, 2, 3\<close>.  \<open>example_scheduler\<close> is the instance right after
  construction, \<open>example_pending\<close> the same instance after one predictor step.
\<close>

definition example_config :: config where
  "example_config =
     \<lparr>num_train_timesteps = 3, beta_start = 0.00085, beta_end = 0.012,
      beta_schedule = ''linear'', trained_betas = Some [1/2, 3/5, 1/2],
      prediction_type = ''epsilon'', use_karras_sigmas = False\<rparr>"

definition example_scheduler :: "real scheduler" where
  "example_scheduler =
     \<lparr>config = example_config, betas = [1/2, 3/5, 1/2], alphas = [1/2, 2/5, 1/2],
      alphas_cumprod = [1/2, 1/5, 1/10], num_inference_steps = 3,
      sigmas = [3, 2, 2, 1, 1, 0], init_noise_sigma = 3, timesteps = [2, 1, 1, 0, 0],
      prev_derivative = None, dt = None, sample = None\<rparr>"

definition example_pending :: "real scheduler" where
  "example_pending =
     example_scheduler\<lparr>prev_derivative := Some 1, dt := Some (- 1), sample := Some 10\<rparr>"

text \<open>A configuration whose two explicit betas do not match its three training timesteps.\<close>

definition mismatched_config :: config where
  "mismatched_config =
     \<lparr>num_train_timesteps = 3, beta_start = 0.00085, beta_end = 0.012,
      beta_schedule = ''linear'', trained_betas = Some [1/2, 3/5],
      prediction_type = ''epsilon'', use_karras_sigmas = False\<rparr>"

subsection \<open>Schedules whose sigma is a function of the timestep\<close>

text \<open>
  Positions of the configured timesteps that hold the same timestep hold the same
  sigma (and every timestep position has a sigma).
\<close>

definition sigma_follows_timestep :: "'a scheduler \<Rightarrow> bool" where
  "sigma_follows_timestep self \<longleftrightarrow>
     length (timesteps self) \<le> length (sigmas self)
     \<and> (\<forall>i < length (timesteps self). \<forall>j < length (timesteps self).
          timesteps self ! i = timesteps self ! j \<longrightarrow> sigmas self ! i = sigmas self ! j)"



section \<open>Properties\<close>

subsection \<open>Primitives and index lookup\<close>

lemma getitem_Nil: "getitem [] i = Inl IndexError"
  by (simp add: getitem_def)

lemma getitem_nth: "i < length xs \<Longrightarrow> getitem xs (int i) = Inr (xs ! i)"
  by (simp add: getitem_def)

lemma getitem_last: "xs \<noteq> [] \<Longrightarrow> getitem xs (- 1) = Inr (last xs)"
  by (cases xs rule: rev_cases) (auto simp: getitem_def)

lemma getitem_hd: "xs \<noteq> [] \<Longrightarrow> getitem xs 0 = Inr (hd xs)"
  by (cases xs) (auto simp: getitem_def)

lemma getitem_pred_ok: "i < length xs \<Longrightarrow> \<exists>v. getitem xs (int i - 1) = Inr v"
  by (cases i; cases xs) (auto simp: getitem_def)

lemma nonzero_eq_Nil_iff: "nonzero_eq ts t = [] \<longleftrightarrow> t \<notin> set ts"
  by (auto simp: nonzero_eq_def filter_empty_conv in_set_conv_nth)

lemma set_nonzero_eq: "set (nonzero_eq ts t) = {i. i < length ts \<and> ts ! i = t}"
  by (auto simp: nonzero_eq_def)

lemma last_nonzero_eq:
  assumes "t \<in> set ts"
  shows "last (nonzero_eq ts t) < length ts \<and> ts ! last (nonzero_eq ts t) = t"
proof -
  from assms have "nonzero_eq ts t \<noteq> []" by (simp add: nonzero_eq_Nil_iff)
  then have "last (nonzero_eq ts t) \<in> set (nonzero_eq ts t)" by (rule last_in_set)
  then show ?thesis by (simp add: set_nonzero_eq)
qed

lemma hd_nonzero_eq:
  assumes "t \<in> set ts"
  shows "hd (nonzero_eq ts t) < length ts \<and> ts ! hd (nonzero_eq ts t) = t"
proof -
  from assms have "nonzero_eq ts t \<noteq> []" by (simp add: nonzero_eq_Nil_iff)
  then have "hd (nonzero_eq ts t) \<in> set (nonzero_eq ts t)" by (rule hd_in_set)
  then show ?thesis by (simp add: set_nonzero_eq)
qed

lemma index_for_timestep_absent:
  "t \<notin> set (timesteps self) \<Longrightarrow> index_for_timestep self t None = Inl IndexError"
  by (simp add: index_for_timestep_def nonzero_eq_Nil_iff [THEN iffD2] getitem_Nil)

lemma index_for_timestep_present:
  assumes "t \<in> set (timesteps self)" and "sched = None \<or> sched = Some (timesteps self)"
  shows "index_for_timestep self t sched =
           Inr (if dt self = None then last (nonzero_eq (timesteps self) t)
                else hd (nonzero_eq (timesteps self) t))"
proof -
  from assms(1) have ne: "nonzero_eq (timesteps self) t \<noteq> []" by (simp add: nonzero_eq_Nil_iff)
  from assms(2) have "(case sched of None \<Rightarrow> timesteps self | Some s \<Rightarrow> s) = timesteps self"
    by auto
  then show ?thesis
    by (simp add: index_for_timestep_def state_in_first_order_def getitem_last [OF ne] getitem_hd [OF ne])
qed

lemma pred_original_sample_supported:
  fixes model_output :: "'a::real_vector"
  assumes "ptype = ''epsilon'' \<or> ptype = ''v_prediction''"
  shows "pred_original_sample ptype sigma_input model_output sample_in =
           Inr (if ptype = ''epsilon'' then sample_in - sigma_input *\<^sub>R model_output
                else (- sigma_input / sqrt (sigma_input\<^sup>2 + 1)) *\<^sub>R model_output
                       + sample_in /\<^sub>R (sigma_input\<^sup>2 + 1))"
  using assms by (auto simp: pred_original_sample_def)

subsection \<open>The shape of the inference schedule\<close>

lemma sequence_err_length: "sequence_err rs = Inr xs \<Longrightarrow> length xs = length rs"
  by (induction rs arbitrary: xs) (auto split: sum.splits)

lemma sequence_err_all_Inr:
  "(\<And>r. r \<in> set rs \<Longrightarrow> \<exists>x. r = Inr x) \<Longrightarrow> \<exists>xs. sequence_err rs = Inr xs"
proof (induction rs)
  case Nil
  then show ?case by simp
next
  case (Cons r rs)
  then obtain x where "r = Inr x" by auto
  moreover from Cons obtain xs where "sequence_err rs = Inr xs" by auto
  ultimately show ?case by simp
qed

lemma sequence_err_map_Inr: "sequence_err (map (\<lambda>x. Inr (f x)) xs) = Inr (map f xs)"
  by (induction xs) auto

lemma np_linspace_length: "np_linspace a b n = Inr xs \<Longrightarrow> 0 \<le> n \<and> length xs = nat n"
  by (auto simp: np_linspace_def split: if_splits)

lemma np_interp_length: "np_interp xs fp = Inr ys \<Longrightarrow> length ys = length xs"
  by (auto simp: np_interp_def split: if_splits)

lemma convert_to_karras_length: "convert_to_karras sgs n = Inr ks \<Longrightarrow> length ks = nat n"
  by (auto simp: convert_to_karras_def Let_def split: sum.splits dest: np_linspace_length)

lemma schedule_arrays_length:
  "schedule_arrays self n ntt = Inr (ts, sgs) \<Longrightarrow> 0 \<le> n \<and> length ts = nat n \<and> length sgs = nat n"
  by (auto simp: schedule_arrays_def Let_def split: sum.splits if_splits
      dest!: np_linspace_length np_interp_length convert_to_karras_length sequence_err_length)


lemma length_repeat_interleave2: "length (repeat_interleave2 xs) = 2 * length xs"
  by (induction xs) (auto simp: repeat_interleave2_def)

lemma repeat_interleave2_Cons: "repeat_interleave2 (x # xs) = x # x # repeat_interleave2 xs"
  by (simp add: repeat_interleave2_def)

lemma repeat_interleave2_Nil: "repeat_interleave2 [] = []"
  by (simp add: repeat_interleave2_def)

lemma nth_repeat_interleave2: "i < 2 * length xs \<Longrightarrow> repeat_interleave2 xs ! i = xs ! (i div 2)"
proof (induction xs arbitrary: i)
  case Nil
  then show ?case by simp
next
  case (Cons x xs)
  show ?case
  proof (cases i)
    case 0
    then show ?thesis by (simp add: repeat_interleave2_Cons)
  next
    case (Suc j)
    show ?thesis
    proof (cases j)
      case 0
      with Suc show ?thesis by (simp add: repeat_interleave2_Cons)
    next
      case (Suc k)
      with \<open>i = Suc j\<close> Cons.prems have "k < 2 * length xs" by simp
      from Cons.IH [OF this] show ?thesis
        using Suc \<open>i = Suc j\<close> by (simp add: repeat_interleave2_Cons)
    qed
  qed
qed

text \<open>The rebuilt sequences, in closed form.\<close>

lemma duplicated_timesteps:
  "ts \<noteq> [] \<Longrightarrow> take 1 ts @ repeat_interleave2 (drop 1 ts) = hd ts # repeat_interleave2 (tl ts)"
  by (cases ts) auto

lemma duplicated_sigmas:
  "sgs \<noteq> [] \<Longrightarrow>
   take 1 (sgs @ [z]) @ repeat_interleave2 (butlast (drop 1 (sgs @ [z])))
     @ drop (length (sgs @ [z]) - 1) (sgs @ [z])
   = hd sgs # repeat_interleave2 (tl sgs) @ [z]"
  by (cases sgs) (auto simp: butlast_append)

lemma set_timesteps_Inr:
  assumes "schedule_arrays self n ntt = Inr (ts, sgs)" and "1 \<le> n"
  shows "set_timesteps self n ntt =
           Inr (self\<lparr>num_inference_steps := n,
                     sigmas := hd sgs # repeat_interleave2 (tl sgs) @ [0],
                     init_noise_sigma := Max (set (hd sgs # repeat_interleave2 (tl sgs) @ [0])),
                     timesteps := hd ts # repeat_interleave2 (tl ts),
                     prev_derivative := None,
                     dt := None\<rparr>)"
proof -
  from schedule_arrays_length [OF assms(1)] assms(2) have nonempty: "ts \<noteq> []" "sgs \<noteq> []" by auto
  from nonempty(1) have e1: "take 1 ts @ repeat_interleave2 (drop 1 ts) = hd ts # repeat_interleave2 (tl ts)"
    by (rule duplicated_timesteps)
  from nonempty(2) have e2: "take 1 (sgs @ [0]) @ repeat_interleave2 (butlast (drop 1 (sgs @ [0])))
               @ drop (length (sgs @ [0]) - 1) (sgs @ [0])
             = hd sgs # repeat_interleave2 (tl sgs) @ [0]"
    by (rule duplicated_sigmas)
  show ?thesis
    unfolding set_timesteps_def Let_def assms(1)
    by (simp only: sum.case prod.case e1 e2)
qed

lemma length_cumsum_from: "length (cumsum_from a xs) = length xs"
  by (induction xs arbitrary: a) auto

lemma length_cumsum: "length (cumsum xs) = length xs"
  by (simp add: cumsum_def length_cumsum_from)

lemma argmax_ok:
  assumes "xs \<noteq> []"
  shows "\<exists>k. argmax xs = Inr k \<and> k < length xs"
proof -
  from assms have "Max (set xs) \<in> set xs" by (intro Max_in) auto
  then obtain i where i: "i < length xs" "xs ! i = Max (set xs)"
    by (auto simp: in_set_conv_nth)
  let ?f = "filter (\<lambda>i. xs ! i = Max (set xs)) [0..<length xs]"
  from i have "i \<in> set ?f" by simp
  then have "?f \<noteq> []" by (metis empty_iff list.set(1))
  then have "hd ?f \<in> set ?f" by (rule hd_in_set)
  then have "hd ?f < length xs" by simp
  with assms show ?thesis by (simp add: argmax_def)
qed

lemma getitem_ok: "- int (length xs) \<le> i \<Longrightarrow> i < int (length xs) \<Longrightarrow> \<exists>v. getitem xs i = Inr v"
  by (auto simp: getitem_def)

lemma sigma_to_t_ok:
  assumes "log_sigmas \<noteq> []"
  shows "\<exists>t. sigma_to_t sigma log_sigmas = Inr t"
proof -
  let ?c = "cumsum (map (\<lambda>d. if d \<ge> 0 then 1 else 0) (map (\<lambda>l. ln sigma - l) log_sigmas))"
  from assms have "?c \<noteq> []" using length_cumsum [of "map (\<lambda>d. if d \<ge> 0 then 1 else 0) (map (\<lambda>l. ln sigma - l) log_sigmas)"]
    by (metis length_0_conv length_map)
  from argmax_ok [OF this] obtain k where k: "argmax ?c = Inr k" "k < length ?c" by blast
  then have kl: "k < length log_sigmas" by (simp add: length_cumsum)
  let ?low = "min (int k) (int (length log_sigmas) - 2)"
  from kl have "- int (length log_sigmas) \<le> ?low" "?low < int (length log_sigmas)" by auto
  from getitem_ok [OF this] obtain lo where lo: "getitem log_sigmas ?low = Inr lo" by blast
  from kl have "- int (length log_sigmas) \<le> ?low + 1" "?low + 1 < int (length log_sigmas)" by auto
  from getitem_ok [OF this] obtain hi where hi: "getitem log_sigmas (?low + 1) = Inr hi" by blast
  show ?thesis unfolding sigma_to_t_def Let_def k(1) by (simp only: sum.case lo hi) blast
qed

lemma convert_to_karras_ok:
  assumes "in_sigmas \<noteq> []" and "0 \<le> n"
  shows "\<exists>ks. convert_to_karras in_sigmas n = Inr ks"
  using assms by (simp add: convert_to_karras_def getitem_last getitem_hd np_linspace_def Let_def)

lemma schedule_arrays_ok:
  assumes "alphas_cumprod self \<noteq> []" and "1 \<le> n \<or> (0 \<le> n \<and> \<not> use_karras_sigmas (config self))"
  shows "\<exists>ts sgs. schedule_arrays self n ntt = Inr (ts, sgs)"
proof -
  let ?ntt = "case ntt of None \<Rightarrow> num_train_timesteps (config self)
                  | Some k \<Rightarrow> if k = 0 then num_train_timesteps (config self) else k"
  from assms(2) have n0: "0 \<le> n" by auto
  then obtain ls where ls: "np_linspace 0 (real_of_int (?ntt - 1)) n = Inr ls" "length ls = nat n"
    by (simp add: np_linspace_def)
  let ?sg = "train_sigmas (alphas_cumprod self)"
  from assms(1) have sg: "?sg \<noteq> []" by (simp add: train_sigmas_def)
  then have interp: "np_interp (rev ls) ?sg = Inr (map (interp1 ?sg) (rev ls))"
    by (simp add: np_interp_def)
  show ?thesis
  proof (cases "use_karras_sigmas (config self)")
    case False
    then show ?thesis unfolding schedule_arrays_def Let_def ls(1) by (simp only: sum.case interp if_False) blast
  next
    case True
    with assms(2) have "1 \<le> n" by auto
    with ls(2) have "map (interp1 ?sg) (rev ls) \<noteq> []" by auto
    from convert_to_karras_ok [OF this n0] obtain ks
      where ks: "convert_to_karras (map (interp1 ?sg) (rev ls)) n = Inr ks" by blast
    from sg have "map ln ?sg \<noteq> []" by simp
    then have "\<And>r. r \<in> set (map (\<lambda>s. sigma_to_t s (map ln ?sg)) ks) \<Longrightarrow> \<exists>x. r = Inr x"
      using sigma_to_t_ok by auto
    from sequence_err_all_Inr [OF this] obtain kts
      where "sequence_err (map (\<lambda>s. sigma_to_t s (map ln ?sg)) ks) = Inr kts" by blast
    with True ks show ?thesis
      unfolding schedule_arrays_def Let_def ls(1) by (simp only: sum.case interp if_True) blast
  qed
qed






lemma nth_duplicated_first: "xs \<noteq> [] \<Longrightarrow> (hd xs # ys) ! 0 = xs ! 0"
  by (cases xs) auto

lemma nth_duplicated:
  assumes "1 \<le> i" and "i < length xs"
  shows "(hd xs # repeat_interleave2 (tl xs) @ zs) ! (2 * i - 1) = xs ! i"
    and "(hd xs # repeat_interleave2 (tl xs) @ zs) ! (2 * i) = xs ! i"
proof -
  from assms obtain j where j: "i = Suc j" by (cases i) auto
  from assms obtain x ys where xs: "xs = x # ys" by (cases xs) auto
  from assms j xs have jl: "j < length ys" by simp
  then have a: "2 * j < 2 * length ys" and b: "2 * j + 1 < 2 * length ys" by auto
  have "(hd xs # repeat_interleave2 (tl xs) @ zs) ! (2 * i - 1) = (repeat_interleave2 ys @ zs) ! (2 * j)"
    by (simp add: j xs)
  also have "\<dots> = repeat_interleave2 ys ! (2 * j)"
    using a by (simp add: nth_append length_repeat_interleave2)
  also have "\<dots> = ys ! j" using nth_repeat_interleave2 [OF a] by simp
  finally show "(hd xs # repeat_interleave2 (tl xs) @ zs) ! (2 * i - 1) = xs ! i"
    by (simp add: j xs)
  have "(hd xs # repeat_interleave2 (tl xs) @ zs) ! (2 * i) = (repeat_interleave2 ys @ zs) ! (2 * j + 1)"
    by (simp add: j xs)
  also have "\<dots> = repeat_interleave2 ys ! (2 * j + 1)"
    using b by (simp add: nth_append length_repeat_interleave2)
  also have "\<dots> = ys ! j" using nth_repeat_interleave2 [OF b] by simp
  finally show "(hd xs # repeat_interleave2 (tl xs) @ zs) ! (2 * i) = xs ! i"
    by (simp add: j xs)
qed

lemma nth_duplicated_terminal:
  assumes "xs \<noteq> []"
  shows "(hd xs # repeat_interleave2 (tl xs) @ [z]) ! (2 * length xs - 1) = z"
proof -
  from assms obtain x ys where xs: "xs = x # ys" by (cases xs) auto
  have "(hd xs # repeat_interleave2 (tl xs) @ [z]) ! (2 * length xs - 1)
          = (repeat_interleave2 ys @ [z]) ! (2 * length ys)"
    by (simp add: xs)
  also have "\<dots> = z"
    using nth_append_length [of "repeat_interleave2 ys" z "[]"]
    by (simp add: length_repeat_interleave2)
  finally show ?thesis .
qed


lemma set_timesteps_InrD:
  "set_timesteps self n ntt = Inr self' \<Longrightarrow> \<exists>ts sgs. schedule_arrays self n ntt = Inr (ts, sgs)"
  by (auto simp: set_timesteps_def split: sum.splits)


lemma init_InrD:
  assumes "init c = Inr self"
  shows "\<exists>bs pre. init_betas c = Inr bs
          \<and> pre = \<lparr>config = c, betas = bs, alphas = map (\<lambda>b. 1 - b) bs,
                    alphas_cumprod = cumprod (map (\<lambda>b. 1 - b) bs),
                    num_inference_steps = 0, sigmas = [], init_noise_sigma = 0,
                    timesteps = [], prev_derivative = None, dt = None, sample = None\<rparr>
          \<and> set_timesteps pre (num_train_timesteps c) (Some (num_train_timesteps c)) = Inr self"
  using assms by (auto simp: init_def Let_def split: sum.splits)

lemma set_timesteps_keeps:
  assumes "set_timesteps self n ntt = Inr self'"
  shows "config self' = config self" and "betas self' = betas self"
    and "alphas self' = alphas self" and "alphas_cumprod self' = alphas_cumprod self"
    and "sample self' = sample self"
  using assms by (auto simp: set_timesteps_def Let_def split: sum.splits prod.splits)

lemma length_cumprod_from: "length (cumprod_from a xs) = length xs"
  by (induction xs arbitrary: a) auto

lemma length_cumprod: "length (cumprod xs) = length xs"
  by (simp add: cumprod_def length_cumprod_from)

lemma init_unknown_schedule:
  assumes "trained_betas c = None"
    and "beta_schedule c \<notin> {''linear'', ''scaled_linear'', ''squaredcos_cap_v2''}"
  shows "init c = Inl NotImplementedError"
  using assms by (simp add: init_def init_betas_def)

lemma init_trained_betas:
  assumes "trained_betas c = Some bs" and "bs \<noteq> []" and "1 \<le> num_train_timesteps c"
  shows "\<exists>self. init c = Inr self \<and> betas self = bs \<and> alphas self = map (\<lambda>b. 1 - b) bs
           \<and> alphas_cumprod self = cumprod (map (\<lambda>b. 1 - b) bs)"
proof -
  let ?pre = "\<lparr>config = c, betas = bs, alphas = map (\<lambda>b. 1 - b) bs,
                    alphas_cumprod = cumprod (map (\<lambda>b. 1 - b) bs),
                    num_inference_steps = 0, sigmas = [], init_noise_sigma = 0,
                    timesteps = [], prev_derivative = None, dt = None, sample = None\<rparr> :: 'a scheduler"
  from assms(2) have "alphas_cumprod ?pre \<noteq> []"
    using length_cumprod [of "map (\<lambda>b. 1 - b) bs"] by auto
  from schedule_arrays_ok [OF this, of "num_train_timesteps c" "Some (num_train_timesteps c)"] assms(3)
  obtain ts sgs where sa: "schedule_arrays ?pre (num_train_timesteps c) (Some (num_train_timesteps c)) = Inr (ts, sgs)"
    by auto
  have i: "init c = set_timesteps ?pre (num_train_timesteps c) (Some (num_train_timesteps c))"
    using assms(1) by (simp add: init_def init_betas_def Let_def)
  show ?thesis unfolding i set_timesteps_Inr [OF sa assms(3)] by simp
qed

lemma mismatched_init:
  "init mismatched_config =
     Inr \<lparr>config = mismatched_config, betas = [1/2, 3/5], alphas = [1/2, 2/5],
          alphas_cumprod = [1/2, 1/5], num_inference_steps = 3,
          sigmas = [2, 2, 2, 1, 1, 0], init_noise_sigma = 2, timesteps = [2, 1, 1, 0, 0],
          prev_derivative = None, dt = None, sample = None\<rparr>"
  by (simp add: init_def init_betas_def set_timesteps_def schedule_arrays_def cumprod_def
      np_linspace_def np_interp_def interp1_def train_sigmas_def upt_rec Let_def
      repeat_interleave2_def mismatched_config_def)

subsection \<open>The integrator phase\<close>

lemma set_timesteps_resets:
  "set_timesteps self n ntt = Inr self' \<Longrightarrow> prev_derivative self' = None \<and> dt self' = None"
  by (auto simp: set_timesteps_def Let_def split: sum.splits prod.splits)

lemma init_resets:
  "init c = Inr self \<Longrightarrow> prev_derivative self = None \<and> dt self = None"
  by (auto simp: init_def Let_def split: sum.splits dest: set_timesteps_resets)

lemma step_phase:
  fixes self :: "'a::real_vector scheduler"
  assumes "step self model_output timestep sample_in = Inr (prev_sample, self')"
  shows "(dt self = None \<longrightarrow> prev_derivative self' \<noteq> None \<and> dt self' \<noteq> None)
       \<and> (dt self \<noteq> None \<longrightarrow> prev_derivative self' = None \<and> dt self' = None)"
  using assms
  by (auto simp: step_def Let_def state_in_first_order_def split: sum.splits option.splits if_splits)

lemma reachable_paired:
  fixes self :: "'a::real_vector scheduler"
  shows "reachable self \<Longrightarrow> (prev_derivative self = None) = (dt self = None)"
proof (induction rule: reachable.induct)
  case (reach_init c self)
  then show ?case by (simp add: init_resets)
next
  case (reach_set_timesteps self n ntt self')
  then show ?case by (simp add: set_timesteps_resets)
next
  case (reach_step self model_output timestep sample_in prev_sample self')
  from step_phase [OF reach_step.hyps(2)] show ?case by (cases "dt self") auto
qed

lemma run_steps_parity:
  fixes self :: "'a::real_vector scheduler"
  shows "run_steps self calls = Inr self' \<Longrightarrow>
    state_in_first_order self' = (state_in_first_order self = even (length calls))"
proof (induction calls arbitrary: self)
  case Nil
  then show ?case by simp
next
  case (Cons call calls)
  obtain mo t s where call: "call = (mo, t, s)" by (cases call) auto
  from Cons.prems call obtain p self1 where
    s1: "step self mo t s = Inr (p, self1)" and r: "run_steps self1 calls = Inr self'"
    by (auto split: sum.splits)
  from step_phase [OF s1] have "state_in_first_order self1 = (\<not> state_in_first_order self)"
    by (auto simp: state_in_first_order_def)
  with Cons.IH [OF r] show ?case by auto
qed

subsection \<open>The small scheduler, evaluated\<close>

lemma example_schedule_arrays:
  "schedule_arrays example_scheduler 3 None = Inr ([2, 1, 0], [3, 2, 1])"
  by (simp add: schedule_arrays_def example_scheduler_def example_config_def np_linspace_def
      np_interp_def interp1_def train_sigmas_def upt_rec Let_def)

lemma example_set_timesteps: "set_timesteps example_scheduler 3 None = Inr example_scheduler"
  by (simp add: set_timesteps_Inr [OF example_schedule_arrays] repeat_interleave2_def)
     (simp add: example_scheduler_def)

lemma example_init: "init example_config = Inr example_scheduler"
  by (simp add: init_def init_betas_def set_timesteps_def schedule_arrays_def cumprod_def
      np_linspace_def np_interp_def interp1_def train_sigmas_def upt_rec Let_def
      repeat_interleave2_def example_config_def example_scheduler_def)

subsection \<open>The Heun step\<close>

text \<open>
  C1.  For a timestep that occurs in the configured timesteps and a prediction type of
  \<open>epsilon\<close> or \<open>v_prediction\<close>, on a schedule with one more sigma than timesteps (as
  \<open>set_timesteps\<close> builds it):
  in the predictor phase (nothing stored) \<open>step\<close> returns
  \<open>sample + derivative * dt\<close> with \<open>derivative = (sample - pred_original) / sigma\<close> and
  \<open>dt = sigma_next - sigma\<close>, read at the last matching index, and stores the derivative,
  \<open>dt\<close> and the sample;
  in the corrector phase (derivative, \<open>dt\<close> and sample stored) it returns
  \<open>stored_sample + ((stored_derivative + (sample - pred_original) / sigma_next) / 2) * stored_dt\<close>,
  with \<open>sigma_next\<close> read at the first matching index, and clears the three stored values.
\<close>

theorem step_heun_formulas:
  fixes self :: "'a::real_vector scheduler"
  assumes present: "timestep \<in> set (timesteps self)"
    and ptype: "prediction_type (config self) = ''epsilon''
                \<or> prediction_type (config self) = ''v_prediction''"
    and len: "length (sigmas self) = length (timesteps self) + 1"
  shows "(prev_derivative self = None \<and> dt self = None \<longrightarrow>
            (\<exists>i sigma sigma_next pred derivative dt'.
                i = last (nonzero_eq (timesteps self) timestep)
              \<and> sigma = sigmas self ! i \<and> sigma_next = sigmas self ! (i + 1)
              \<and> pred_original_sample (prediction_type (config self)) sigma model_output sample_in
                  = Inr pred
              \<and> derivative = (sample_in - pred) /\<^sub>R sigma
              \<and> dt' = sigma_next - sigma
              \<and> step self model_output timestep sample_in
                  = Inr (sample_in + dt' *\<^sub>R derivative,
                         self\<lparr>prev_derivative := Some derivative, dt := Some dt',
                              sample := Some sample_in\<rparr>)))
       \<and> (\<forall>pd d s. prev_derivative self = Some pd \<and> dt self = Some d \<and> sample self = Some s \<longrightarrow>
            (\<exists>i sigma_next pred.
                i = hd (nonzero_eq (timesteps self) timestep)
              \<and> sigma_next = sigmas self ! i
              \<and> pred_original_sample (prediction_type (config self)) sigma_next model_output
                  sample_in = Inr pred
              \<and> step self model_output timestep sample_in
                  = Inr (s + d *\<^sub>R ((pd + (sample_in - pred) /\<^sub>R sigma_next) /\<^sub>R 2),
                         self\<lparr>prev_derivative := None, dt := None, sample := None\<rparr>)))"
proof (intro conjI impI allI)
  assume first: "prev_derivative self = None \<and> dt self = None"
  define i where "i = last (nonzero_eq (timesteps self) timestep)"
  from last_nonzero_eq [OF present] have i: "i < length (timesteps self)" by (simp add: i_def)
  have idx: "index_for_timestep self timestep None = Inr i"
    using index_for_timestep_present [OF present, of None] first by (simp add: i_def)
  from i len have g1: "getitem (sigmas self) (int i) = Inr (sigmas self ! i)"
    by (simp add: getitem_nth)
  from i len have g2: "getitem (sigmas self) (int i + 1) = Inr (sigmas self ! (i + 1))"
    using getitem_nth [of "i + 1" "sigmas self"] by (simp add: add.commute)
  from pred_original_sample_supported [OF ptype]
  obtain pred where pred: "pred_original_sample (prediction_type (config self)) (sigmas self ! i)
      model_output sample_in = Inr pred" by blast
  have "step self model_output timestep sample_in
          = Inr (sample_in + (sigmas self ! (i + 1) - sigmas self ! i) *\<^sub>R ((sample_in - pred) /\<^sub>R (sigmas self ! i)),
                 self\<lparr>prev_derivative := Some ((sample_in - pred) /\<^sub>R (sigmas self ! i)),
                      dt := Some (sigmas self ! (i + 1) - sigmas self ! i),
                      sample := Some sample_in\<rparr>)"
    using first by (simp add: step_def idx g1 g2 pred state_in_first_order_def Let_def)
  with pred show "\<exists>i sigma sigma_next pred derivative dt'.
                i = last (nonzero_eq (timesteps self) timestep)
              \<and> sigma = sigmas self ! i \<and> sigma_next = sigmas self ! (i + 1)
              \<and> pred_original_sample (prediction_type (config self)) sigma model_output sample_in
                  = Inr pred
              \<and> derivative = (sample_in - pred) /\<^sub>R sigma
              \<and> dt' = sigma_next - sigma
              \<and> step self model_output timestep sample_in
                  = Inr (sample_in + dt' *\<^sub>R derivative,
                         self\<lparr>prev_derivative := Some derivative, dt := Some dt',
                              sample := Some sample_in\<rparr>)"
    by (simp add: i_def)
next
  fix pd d s
  assume second: "prev_derivative self = Some pd \<and> dt self = Some d \<and> sample self = Some s"
  define i where "i = hd (nonzero_eq (timesteps self) timestep)"
  from hd_nonzero_eq [OF present] have i: "i < length (timesteps self)" by (simp add: i_def)
  have idx: "index_for_timestep self timestep None = Inr i"
    using index_for_timestep_present [OF present, of None] second by (simp add: i_def)
  from i len have g1: "getitem (sigmas self) (int i) = Inr (sigmas self ! i)"
    by (simp add: getitem_nth)
  from i len obtain v where g0: "getitem (sigmas self) (int i - 1) = Inr v"
    using getitem_pred_ok [of i "sigmas self"] by auto
  from pred_original_sample_supported [OF ptype]
  obtain pred where pred: "pred_original_sample (prediction_type (config self)) (sigmas self ! i)
      model_output sample_in = Inr pred" by blast
  have "step self model_output timestep sample_in
          = Inr (s + d *\<^sub>R ((pd + (sample_in - pred) /\<^sub>R (sigmas self ! i)) /\<^sub>R 2),
                 self\<lparr>prev_derivative := None, dt := None, sample := None\<rparr>)"
    using second by (simp add: step_def idx g0 g1 pred state_in_first_order_def Let_def)
  with pred show "\<exists>i sigma_next pred.
                i = hd (nonzero_eq (timesteps self) timestep)
              \<and> sigma_next = sigmas self ! i
              \<and> pred_original_sample (prediction_type (config self)) sigma_next model_output
                  sample_in = Inr pred
              \<and> step self model_output timestep sample_in
                  = Inr (s + d *\<^sub>R ((pd + (sample_in - pred) /\<^sub>R sigma_next) /\<^sub>R 2),
                         self\<lparr>prev_derivative := None, dt := None, sample := None\<rparr>)"
    by (simp add: i_def)
qed

theorem step_heun_formulas_witness:
  "step example_scheduler 1 2 10 = Inr (9, example_pending)
   \<and> step example_pending 1 1 9 = Inr (9, example_scheduler)"
  using step_heun_formulas [where self = example_scheduler and timestep = 2
                              and model_output = 1 and sample_in = 10]
        step_heun_formulas [where self = example_pending and timestep = 1
                              and model_output = 1 and sample_in = 9]
  by (simp add: example_pending_def example_scheduler_def example_config_def nonzero_eq_def
      pred_original_sample_def upt_rec)

text \<open>
  C5.  A timestep that equals no entry of the configured timesteps makes \<open>step\<close> raise
  \<open>IndexError\<close> (a \<open>LookupError\<close>): indexing the empty tensor of matching positions
  fails before anything else is computed.
\<close>

theorem step_unknown_timestep_raises:
  fixes self :: "'a::real_vector scheduler"
  shows "timestep \<notin> set (timesteps self)
         \<Longrightarrow> step self model_output timestep sample_in = Inl IndexError"
  by (simp add: step_def index_for_timestep_absent)

theorem step_unknown_timestep_raises_witness:
  "(3::real) \<notin> set (timesteps example_scheduler)
   \<and> step example_scheduler 1 3 10 = Inl IndexError"
  using step_unknown_timestep_raises [where self = example_scheduler and timestep = 3
                                        and model_output = 1 and sample_in = 10]
  by (simp add: example_scheduler_def)

text \<open>
  C8.  After a \<open>set_timesteps\<close> call and any run of successful \<open>step\<close> calls the
  scheduler is in first-order (predictor-ready) state exactly when the number of
  completed calls is even, hence corrector-pending exactly when it is odd; and in every
  reachable state the stored derivative is \<open>None\<close> exactly when the stored \<open>dt\<close> is.
\<close>

theorem phase_parity_invariant:
  fixes self before :: "'a::real_vector scheduler"
  shows "(set_timesteps before n ntt = Inr started \<and> run_steps started calls = Inr final
            \<longrightarrow> state_in_first_order final = even (length calls))
       \<and> (reachable self \<longrightarrow> (prev_derivative self = None) = (dt self = None))"
proof (intro conjI impI)
  assume a: "set_timesteps before n ntt = Inr started \<and> run_steps started calls = Inr final"
  then have "dt started = None"
    using set_timesteps_resets [of before n ntt started] by simp
  then have "state_in_first_order started"
    by (simp add: state_in_first_order_def)
  with a run_steps_parity [of started calls final]
  show "state_in_first_order final = even (length calls)" by simp
next
  assume "reachable self"
  then show "(prev_derivative self = None) = (dt self = None)" by (rule reachable_paired)
qed

theorem phase_parity_invariant_witness:
  "set_timesteps example_scheduler 3 None = Inr example_scheduler
   \<and> run_steps example_scheduler [(1, 2, 10)] = Inr example_pending
   \<and> state_in_first_order example_pending = even (length [(1::real, 2::real, 10::real)])
   \<and> reachable example_pending
   \<and> (prev_derivative example_pending = None) = (dt example_pending = None)"
proof -
  have s: "step example_scheduler 1 2 10 = Inr (9, example_pending)"
    by (simp add: step_def index_for_timestep_def nonzero_eq_def getitem_def
        state_in_first_order_def pred_original_sample_def upt_rec Let_def
        example_pending_def example_scheduler_def example_config_def)
  then have r: "run_steps example_scheduler [(1, 2, 10)] = Inr example_pending" by simp
  have "reachable example_scheduler" using example_init by (rule reach_init)
  then have p: "reachable example_pending" using s by (rule reach_step)
  from phase_parity_invariant [where before = example_scheduler and n = 3 and ntt = None
      and started = example_scheduler and calls = "[(1, 2, 10)]" and final = example_pending
      and self = example_pending] example_set_timesteps r p
  show ?thesis by simp
qed

subsection \<open>Rebuilding the inference schedule\<close>

text \<open>
  C2, as the code has it.  For \<open>N \<ge> 1\<close> inference steps (so for every \<open>N \<ge> 3\<close>), with
  \<open>ts\<close> and \<open>sgs\<close> the \<open>N\<close> timesteps and \<open>N\<close> sigmas before duplication:
  the rebuilt sigmas are the first sigma once, every later sigma twice in a row, and the
  terminal \<open>0.0\<close> once (of the \<open>N + 1\<close> entries \<open>sgs @ [0]\<close> the interior ones are
  duplicated, the first and the last are not);
  the rebuilt timesteps are the first timestep once and every later timestep, the last
  one included, twice in a row.
\<close>

theorem set_timesteps_duplication:
  assumes "1 \<le> n" and "schedule_arrays self n ntt = Inr (ts, sgs)"
  shows "\<exists>self'. set_timesteps self n ntt = Inr self'
           \<and> length ts = nat n \<and> length sgs = nat n
           \<and> length (sigmas self') = 2 * nat n
           \<and> sigmas self' ! 0 = sgs ! 0
           \<and> (\<forall>i. 1 \<le> i \<and> i < nat n \<longrightarrow>
                  sigmas self' ! (2 * i - 1) = sgs ! i \<and> sigmas self' ! (2 * i) = sgs ! i)
           \<and> sigmas self' ! (2 * nat n - 1) = 0
           \<and> length (timesteps self') = 2 * nat n - 1
           \<and> timesteps self' ! 0 = ts ! 0
           \<and> (\<forall>i. 1 \<le> i \<and> i < nat n \<longrightarrow>
                  timesteps self' ! (2 * i - 1) = ts ! i \<and> timesteps self' ! (2 * i) = ts ! i)"
proof -
  from schedule_arrays_length [OF assms(2)] have len: "length ts = nat n" "length sgs = nat n"
    by auto
  with assms(1) have ne: "ts \<noteq> []" "sgs \<noteq> []" by auto
  let ?sg = "hd sgs # repeat_interleave2 (tl sgs) @ [0]"
  let ?ts = "hd ts # repeat_interleave2 (tl ts)"
  have s0: "?sg ! 0 = sgs ! 0" using ne(2) by (rule nth_duplicated_first)
  have t0: "?ts ! 0 = ts ! 0" using ne(1) by (rule nth_duplicated_first)
  have sl: "length ?sg = 2 * nat n" using ne(2) len(2)
    by (cases sgs) (auto simp: length_repeat_interleave2)
  have tl: "length ?ts = 2 * nat n - 1" using ne(1) len(1)
    by (cases ts) (auto simp: length_repeat_interleave2)
  have si: "\<forall>i. 1 \<le> i \<and> i < nat n \<longrightarrow> ?sg ! (2 * i - 1) = sgs ! i \<and> ?sg ! (2 * i) = sgs ! i"
    using nth_duplicated [of _ sgs "[0]"] len(2) by simp
  have ti: "\<forall>i. 1 \<le> i \<and> i < nat n \<longrightarrow> ?ts ! (2 * i - 1) = ts ! i \<and> ?ts ! (2 * i) = ts ! i"
    using nth_duplicated [of _ ts "[]"] len(1) by simp
  have sz: "?sg ! (2 * nat n - 1) = 0"
    using nth_duplicated_terminal [OF ne(2), of 0] len(2) by simp
  show ?thesis
    unfolding set_timesteps_Inr [OF assms(2) assms(1)]
    using len s0 t0 sl tl si ti sz by simp
qed

theorem set_timesteps_duplication_witness:
  "schedule_arrays example_scheduler 3 None = Inr ([2, 1, 0], [3, 2, 1])
   \<and> set_timesteps example_scheduler 3 None = Inr example_scheduler
   \<and> sigmas example_scheduler = [3, 2, 2, 1, 1, 0]
   \<and> timesteps example_scheduler = [2, 1, 1, 0, 0]
   \<and> timesteps example_scheduler ! (2 * 2 - 1) = [2, 1, 0] ! 2
   \<and> timesteps example_scheduler ! (2 * 2) = [2, 1, 0] ! 2"
  using set_timesteps_duplication [where self = example_scheduler and n = 3 and ntt = None
      and ts = "[2, 1, 0]" and sgs = "[3, 2, 1]"]
    example_schedule_arrays example_set_timesteps
  by (simp add: example_scheduler_def)

text \<open>
  The claim as written fails for the timesteps: their last entry is duplicated.  With
  three inference steps on the small scheduler the timesteps before duplication are
  \<open>2, 1, 0\<close>, and the last of them, \<open>0\<close>, occurs twice in the rebuilt sequence.
\<close>

theorem last_timestep_is_duplicated:
  "schedule_arrays example_scheduler 3 None = Inr ([2, 1, 0], [3, 2, 1])
   \<and> set_timesteps example_scheduler 3 None = Inr example_scheduler
   \<and> timesteps example_scheduler = [2, 1, 1, 0, 0]
   \<and> count_list (timesteps example_scheduler) (last [2, 1, 0]) = 2"
  using example_schedule_arrays example_set_timesteps by (simp add: example_scheduler_def)




subsection \<open>Construction\<close>

text \<open>
  C6, as the code has it.  Without explicit betas, a \<open>beta_schedule\<close> other than
  \<open>linear\<close>, \<open>scaled_linear\<close> and \<open>squaredcos_cap_v2\<close> makes the constructor raise
  \<open>NotImplementedError\<close>.  Explicit betas bypass the generation and are used as they
  are, whatever their length: a non-empty array is accepted for every
  \<open>num_train_timesteps \<ge> 1\<close>, and the instance holds exactly these betas and the
  alphas and cumulative products derived from them.
\<close>

theorem init_errors:
  "(trained_betas c = None
      \<and> beta_schedule c \<notin> {''linear'', ''scaled_linear'', ''squaredcos_cap_v2''}
      \<longrightarrow> (init c :: error + 'a scheduler) = Inl NotImplementedError)
   \<and> (trained_betas c = Some bs \<and> bs \<noteq> [] \<and> 1 \<le> num_train_timesteps c
      \<longrightarrow> (\<exists>self :: 'a scheduler. init c = Inr self \<and> betas self = bs
             \<and> alphas self = map (\<lambda>b. 1 - b) bs
             \<and> alphas_cumprod self = cumprod (map (\<lambda>b. 1 - b) bs)))"
  using init_unknown_schedule [of c] init_trained_betas [of c bs] by blast

theorem init_errors_witness:
  "(init (example_config\<lparr>trained_betas := None, beta_schedule := ''cosine''\<rparr>)
      :: error + real scheduler) = Inl NotImplementedError
   \<and> (\<exists>self :: real scheduler. init mismatched_config = Inr self \<and> betas self = [1/2, 3/5])"
  using init_errors [where c = "example_config\<lparr>trained_betas := None, beta_schedule := ''cosine''\<rparr>"
                       and 'a = real]
        init_errors [where c = mismatched_config and bs = "[1/2, 3/5]" and 'a = real]
  by (auto simp: example_config_def mismatched_config_def)

text \<open>
  The claim as written fails where it asks for a length check: two explicit betas with
  \<open>num_train_timesteps = 3\<close> construct a scheduler.
\<close>

theorem mismatched_betas_accepted:
  "trained_betas mismatched_config = Some [1/2, 3/5]
   \<and> int (length [1/2, 3/5 :: real]) \<noteq> num_train_timesteps mismatched_config
   \<and> (init mismatched_config :: error + real scheduler) =
     Inr \<lparr>config = mismatched_config, betas = [1/2, 3/5], alphas = [1/2, 2/5],
          alphas_cumprod = [1/2, 1/5], num_inference_steps = 3,
          sigmas = [2, 2, 2, 1, 1, 0], init_noise_sigma = 2, timesteps = [2, 1, 1, 0, 0],
          prev_derivative = None, dt = None, sample = None\<rparr>"
  using mismatched_init by (simp add: mismatched_config_def)

subsection \<open>Values of the calls on a configured schedule\<close>




lemma step_corrector:
  fixes self :: "'a::real_vector scheduler"
  assumes present: "timestep \<in> set (timesteps self)"
    and ptype: "prediction_type (config self) = ''epsilon''
                \<or> prediction_type (config self) = ''v_prediction''"
    and len: "length (sigmas self) = length (timesteps self) + 1"
    and second: "prev_derivative self = Some pd" "dt self = Some d" "sample self = Some s"
    and i: "i = hd (nonzero_eq (timesteps self) timestep)"
  shows "\<exists>pred. pred_original_sample (prediction_type (config self)) (sigmas self ! i)
                  model_output sample_in = Inr pred
          \<and> step self model_output timestep sample_in
             = Inr (s + d *\<^sub>R ((pd + (sample_in - pred) /\<^sub>R (sigmas self ! i)) /\<^sub>R 2),
                    self\<lparr>prev_derivative := None, dt := None, sample := None\<rparr>)"
proof -
  from hd_nonzero_eq [OF present] have il: "i < length (timesteps self)" by (simp add: i)
  have idx: "index_for_timestep self timestep None = Inr i"
    using index_for_timestep_present [OF present, of None] second by (simp add: i)
  from il len have g1: "getitem (sigmas self) (int i) = Inr (sigmas self ! i)"
    by (simp add: getitem_nth)
  from il len obtain v where g0: "getitem (sigmas self) (int i - 1) = Inr v"
    using getitem_pred_ok [of i "sigmas self"] by auto
  from pred_original_sample_supported [OF ptype]
  obtain pred where pred: "pred_original_sample (prediction_type (config self)) (sigmas self ! i)
      model_output sample_in = Inr pred" by blast
  have "step self model_output timestep sample_in
          = Inr (s + d *\<^sub>R ((pd + (sample_in - pred) /\<^sub>R (sigmas self ! i)) /\<^sub>R 2),
                 self\<lparr>prev_derivative := None, dt := None, sample := None\<rparr>)"
    using second by (simp add: step_def idx g0 g1 pred state_in_first_order_def Let_def)
  with pred show ?thesis by blast
qed



lemma map_repeat_interleave2: "map f (repeat_interleave2 xs) = repeat_interleave2 (map f xs)"
  by (induction xs) (auto simp: repeat_interleave2_Cons repeat_interleave2_Nil)

lemma schedule_arrays_plain:
  assumes "\<not> use_karras_sigmas (config self)" and "schedule_arrays self n ntt = Inr (ts, sgs)"
  shows "sgs = map (interp1 (train_sigmas (alphas_cumprod self))) ts"
  using assms
  by (auto simp: schedule_arrays_def np_interp_def Let_def split: sum.splits if_splits)

lemma init_via_set_timesteps:
  assumes "init c = Inr self"
  shows "\<exists>pre. config pre = c
           \<and> set_timesteps pre (num_train_timesteps c) (Some (num_train_timesteps c)) = Inr self"
proof -
  from init_InrD [OF assms] obtain bs where
    "set_timesteps \<lparr>config = c, betas = bs, alphas = map (\<lambda>b. 1 - b) bs,
                    alphas_cumprod = cumprod (map (\<lambda>b. 1 - b) bs),
                    num_inference_steps = 0, sigmas = [], init_noise_sigma = 0,
                    timesteps = [], prev_derivative = None, dt = None, sample = None\<rparr>
       (num_train_timesteps c) (Some (num_train_timesteps c)) = Inr self"
    by blast
  then show ?thesis by (intro exI conjI) simp_all
qed

lemma set_timesteps_fields:
  assumes "set_timesteps self n ntt = Inr self'" and "schedule_arrays self n ntt = Inr (ts, sgs)"
    and "1 \<le> n"
  shows "timesteps self' = hd ts # repeat_interleave2 (tl ts)"
    and "sigmas self' = hd sgs # repeat_interleave2 (tl sgs) @ [0]"
proof -
  from assms(1) have "self' = self\<lparr>num_inference_steps := n,
                     sigmas := hd sgs # repeat_interleave2 (tl sgs) @ [0],
                     init_noise_sigma := Max (set (hd sgs # repeat_interleave2 (tl sgs) @ [0])),
                     timesteps := hd ts # repeat_interleave2 (tl ts),
                     prev_derivative := None,
                     dt := None\<rparr>"
    unfolding set_timesteps_Inr [OF assms(2) assms(3)] by (simp only: sum.inject)
  then show "timesteps self' = hd ts # repeat_interleave2 (tl ts)"
    and "sigmas self' = hd sgs # repeat_interleave2 (tl sgs) @ [0]"
    by simp_all
qed

lemma set_timesteps_sigma_follows:
  assumes "\<not> use_karras_sigmas (config self)" and "set_timesteps self n ntt = Inr self'"
  shows "sigma_follows_timestep self'"
proof -
  from set_timesteps_InrD [OF assms(2)] obtain ts sgs
    where sa: "schedule_arrays self n ntt = Inr (ts, sgs)" by blast
  define f where "f = interp1 (train_sigmas (alphas_cumprod self))"
  from schedule_arrays_plain [OF assms(1) sa] have sgs: "sgs = map f ts" by (simp add: f_def)
  from schedule_arrays_length [OF sa] have n0: "0 \<le> n" and len: "length ts = nat n" by auto
  show ?thesis
  proof (cases "ts = []")
    case True
    with assms(2) sa sgs have "timesteps self' = []"
      by (auto simp: set_timesteps_def Let_def repeat_interleave2_Nil)
    then show ?thesis by (simp add: sigma_follows_timestep_def)
  next
    case False
    with len n0 have n: "1 \<le> n" by (cases ts) auto
    define dts where "dts = hd ts # repeat_interleave2 (tl ts)"
    from False have m: "hd (map f ts) # repeat_interleave2 (tl (map f ts)) = map f dts"
      unfolding dts_def by (cases ts) (auto simp: map_repeat_interleave2)
    from set_timesteps_fields(1) [OF assms(2) sa n]
    have t: "timesteps self' = dts" by (simp only: dts_def)
    from set_timesteps_fields(2) [OF assms(2) sa n]
    have "sigmas self' = (hd (map f ts) # repeat_interleave2 (tl (map f ts))) @ [0]"
      by (simp only: sgs append_Cons)
    then have s: "sigmas self' = map f dts @ [0]" by (simp only: m)
    have v: "sigmas self' ! i = f (timesteps self' ! i)" if "i < length dts" for i
    proof -
      from that have "(map f dts @ [0]) ! i = map f dts ! i"
        by (simp only: nth_append length_map if_True)
      also from that have "\<dots> = f (dts ! i)" by (rule nth_map)
      finally show ?thesis unfolding t s .
    qed
    show ?thesis
      unfolding sigma_follows_timestep_def
    proof (intro conjI allI impI)
      show "length (timesteps self') \<le> length (sigmas self')" unfolding t s by simp
    next
      fix i j
      assume "i < length (timesteps self')" "j < length (timesteps self')"
        and e: "timesteps self' ! i = timesteps self' ! j"
      then have "i < length dts" "j < length dts" unfolding t by simp_all
      from v [OF this(1)] v [OF this(2)] e
      show "sigmas self' ! i = sigmas self' ! j" by simp
    qed
  qed
qed

lemma step_keeps:
  fixes self :: "'a::real_vector scheduler"
  assumes "step self model_output timestep sample_in = Inr (prev_sample, self')"
  shows "config self' = config self" and "timesteps self' = timesteps self"
    and "sigmas self' = sigmas self" and "alphas_cumprod self' = alphas_cumprod self"
  using assms
  by (auto simp: step_def Let_def split: sum.splits option.splits if_splits)

lemma reachable_sigma_follows:
  fixes self :: "'a::real_vector scheduler"
  shows "reachable self \<Longrightarrow> \<not> use_karras_sigmas (config self) \<Longrightarrow> sigma_follows_timestep self"
proof (induction rule: reachable.induct)
  case (reach_init c self)
  from init_via_set_timesteps [OF reach_init(1)] obtain pre :: "'a scheduler" where
    pre: "config pre = c" "set_timesteps pre (num_train_timesteps c) (Some (num_train_timesteps c)) = Inr self"
    by blast
  from set_timesteps_keeps(1) [OF pre(2)] pre(1) reach_init(2)
  have "\<not> use_karras_sigmas (config pre)" by simp
  then show ?case using pre(2) by (rule set_timesteps_sigma_follows)
next
  case (reach_set_timesteps self n ntt self')
  from set_timesteps_keeps(1) [OF reach_set_timesteps(2)] reach_set_timesteps(4)
  have "\<not> use_karras_sigmas (config self)" by simp
  then show ?case using reach_set_timesteps(2) by (rule set_timesteps_sigma_follows)
next
  case (reach_step self model_output timestep sample_in prev_sample self')
  from step_keeps(1) [OF reach_step(2)] reach_step(4)
  have "\<not> use_karras_sigmas (config self)" by simp
  then have "sigma_follows_timestep self" by (rule reach_step(3))
  then show ?case
    unfolding sigma_follows_timestep_def step_keeps(2,3) [OF reach_step(2)] .
qed




subsection \<open>The schedule after construction\<close>







subsection \<open>The beta schedule and the training sigmas\<close>














subsection \<open>Order of the inference schedule\<close>





















subsection \<open>Karras sigmas at repeated timesteps\<close>












subsection \<open>Noise injection\<close>



end
